theory Spec2Isabelle
  imports Complex_Main "HOL-Library.AList"
begin

section \<open>The numbers of the script\<close>

text \<open>
  The numbers of a JavaScript program are IEEE 754 doubles, and every \<^verbatim>\<open>+\<close>, \<^verbatim>\<open>-\<close> and
  \<^verbatim>\<open>*\<close> of the script rounds. A finite double is kept as the rational it stands for; the
  two zeros are one value (they compare equal, print alike, and the script never
  divides). \<open>rnd\<close> takes a rational to the nearest double, ties to the even significand,
  with gradual underflow below \<open>2 ^ - 1022\<close> and overflow to an infinity from
  \<open>2 ^ 1024 - 2 ^ 970\<close> on. An operation on finite doubles is the exact operation
  followed by \<open>rnd\<close>.
\<close>

datatype double = Finite rat | PosInf | NegInf | NaN

text \<open>The number of binary digits of a positive integer.\<close>

function bitLength :: "int \<Rightarrow> nat" where
  "bitLength n = (if n \<le> 0 then 0 else Suc (bitLength (n div 2)))"
  by pat_completeness auto
termination
  by (relation "measure nat") auto

definition pow2 :: "int \<Rightarrow> rat" where
  "pow2 e = (if 0 \<le> e then 2 ^ nat e else 1 / 2 ^ nat (- e))"

text \<open>The exponent \<open>e\<close> of a positive rational: \<open>2 ^ e \<le> q < 2 ^ (e + 1)\<close>.\<close>

definition floorLog2 :: "rat \<Rightarrow> int" where
  "floorLog2 q =
     (if 1 \<le> q then int (bitLength \<lfloor>q\<rfloor>) - 1
      else - int (bitLength (\<lceil>1 / q\<rceil> - 1)))"

definition roundHalfEven :: "rat \<Rightarrow> int" where
  "roundHalfEven q =
     (let n = \<lfloor>q\<rfloor>; d = q - of_int n
      in if d < 1 / 2 then n else if 1 / 2 < d then n + 1 else if even n then n else n + 1)"

definition rnd :: "rat \<Rightarrow> double" where
  "rnd q =
     (if q = 0 then Finite 0
      else
        (let e = max (floorLog2 \<bar>q\<bar>) (- 1022);
             ulp = pow2 (e - 52);
             n = roundHalfEven (\<bar>q\<bar> / ulp)
         in if 1024 \<le> e \<or> (e = 1023 \<and> n = 2 ^ 53)
            then (if 0 < q then PosInf else NegInf)
            else Finite (if 0 < q then of_int n * ulp else - (of_int n * ulp))))"

fun dneg :: "double \<Rightarrow> double" where
  "dneg (Finite x) = Finite (- x)"
| "dneg PosInf = NegInf"
| "dneg NegInf = PosInf"
| "dneg NaN = NaN"

fun dadd :: "double \<Rightarrow> double \<Rightarrow> double" where
  "dadd (Finite x) (Finite y) = rnd (x + y)"
| "dadd NaN _ = NaN"
| "dadd _ NaN = NaN"
| "dadd PosInf NegInf = NaN"
| "dadd NegInf PosInf = NaN"
| "dadd PosInf _ = PosInf"
| "dadd _ PosInf = PosInf"
| "dadd NegInf _ = NegInf"
| "dadd _ NegInf = NegInf"

definition dsub :: "double \<Rightarrow> double \<Rightarrow> double" where
  "dsub x y = dadd x (dneg y)"

definition dsign :: "double \<Rightarrow> int" where
  "dsign x =
     (case x of
        Finite q \<Rightarrow> (if 0 < q then 1 else if q < 0 then - 1 else 0)
      | PosInf \<Rightarrow> 1
      | NegInf \<Rightarrow> - 1
      | NaN \<Rightarrow> 0)"

definition dmul :: "double \<Rightarrow> double \<Rightarrow> double" where
  "dmul x y =
     (case (x, y) of
        (Finite a, Finite b) \<Rightarrow> rnd (a * b)
      | _ \<Rightarrow>
          if x = NaN \<or> y = NaN \<or> dsign x * dsign y = 0 then NaN
          else if 0 < dsign x * dsign y then PosInf
          else NegInf)"

text \<open>The comparison \<^verbatim>\<open>==\<close> of two numbers: \<^verbatim>\<open>NaN\<close> equals nothing, not even itself.\<close>

definition jsEquals :: "double \<Rightarrow> double \<Rightarrow> bool" where
  "jsEquals x y = (x \<noteq> NaN \<and> x = y)"

section \<open>Maximo work actuals export: data model\<close>

text \<open>
  The script \<^verbatim>\<open>pge_test_script.js\<close> reads a batch of changed time records from the
  incremental export API, filters them, sums them per group key and writes one row per
  sum that is not zero.

  The host's record objects resolve a field name in either case, so \<^verbatim>\<open>Record.ld1\<close>
  and \<^verbatim>\<open>Record.LD1\<close> (likewise \<^verbatim>\<open>eff_rate\<close>, \<^verbatim>\<open>display_employee\<close>) are one field.
  The labour-distribution fields \<^verbatim>\<open>LD1\<close> (field work order) and \<^verbatim>\<open>LD8\<close> (job code)
  may be null; the other fields of a record are always present.

  The collaborators of the script (the incremental export API, the file writer, the
  policy and person data APIs, the host's dates) are not part of the sources. Their
  results are parameters; the writer is the list of rows appended to it.
\<close>

record date =
  year :: int
  month :: nat
  day :: nat

record entry =
  DISPLAY_EMPLOYEE :: string
  WORK_DT :: date
  LD1 :: "string option"
  PAY_CODE :: string
  EFF_RATE :: double
  LD8 :: "string option"
  HOURS :: double
  UNIT9 :: double

text \<open>The object \<^verbatim>\<open>initData\<close> that \<^verbatim>\<open>addData\<close> keeps per key; a written row carries the
  same eight values (number and date formatting belong to the host's writer).\<close>

record aggregate =
  hours :: double
  fwo :: "string option"
  emplid :: string
  workDt :: date
  payCode :: string
  rate :: double
  jobCode :: "string option"
  inTransit :: double

datatype error =
  TypeError
  | UnionCodeUnavailable

subsection \<open>Constants\<close>

definition DOUBLE_RATE_PAY_CODES :: "string list" where
  "DOUBLE_RATE_PAY_CODES = [''GOLDEN_TIME'', ''HIGH_TIME'', ''PREMIUM_UPGRADE_PAY'']"

definition VALID_FWO_PREFIXES :: "string list" where
  "VALID_FWO_PREFIXES = [''M'', ''F'']"

text \<open>Modelled from the spec: \<^verbatim>\<open>inArray\<close> is a helper of the included library
  \<^verbatim>\<open>JS_UTIL\<close>, which is not part of the sources; the spec reads every use of it as
  membership of the value in the list ("is in the double-rate set", "is not a member of
  validPayCodes", "is not one of validPrefixes").\<close>

definition inArray :: "'a list \<Rightarrow> 'a \<Rightarrow> bool" where
  "inArray arr v = (v \<in> set arr)"

subsection \<open>The summing table\<close>

text \<open>
  \<^verbatim>\<open>getMatchKey\<close> joins the six \<^verbatim>\<open>GROUP_FIELDS\<close> of a record, in their order
  \<^verbatim>\<open>DISPLAY_EMPLOYEE, WORK_DT, LD1, PAY_CODE, EFF_RATE, LD8\<close>, with the separator
  \<^verbatim>\<open>|\<close>. The six values are kept as a tuple. (The keys that meet in one table of the
  loop differ in the pay code alone, where the joined strings are equal exactly when the
  tuples are.) The \<^verbatim>\<open>LookupTable\<close> is an association list in insertion order:
  \<^verbatim>\<open>set\<close> of a new key appends, \<^verbatim>\<open>get(k).f += v\<close> changes the stored object in place.
\<close>

type_synonym match_key = "string \<times> date \<times> string option \<times> string \<times> double \<times> string option"

type_synonym lookup_table = "(match_key \<times> aggregate) list"

definition getMatchKey :: "entry \<Rightarrow> match_key" where
  "getMatchKey record =
     (DISPLAY_EMPLOYEE record, WORK_DT record, LD1 record, PAY_CODE record,
      EFF_RATE record, LD8 record)"

definition containsKey :: "lookup_table \<Rightarrow> match_key \<Rightarrow> bool" where
  "containsKey data k = (k \<in> fst ` set data)"

definition initData :: "entry \<Rightarrow> aggregate" where
  "initData record =
     \<lparr> hours = Finite 0,
       fwo = LD1 record,
       emplid = DISPLAY_EMPLOYEE record,
       workDt = WORK_DT record,
       payCode = PAY_CODE record,
       rate = (if inArray DOUBLE_RATE_PAY_CODES (PAY_CODE record)
               then dmul (Finite 2) (EFF_RATE record) else EFF_RATE record),
       jobCode = LD8 record,
       inTransit = Finite 0 \<rparr>"

text \<open>Lines 105 to 122 of \<^verbatim>\<open>addData\<close>: create the entry of the key when it is missing,
  then add the hours less the transit time, and the transit time, of the record to it.\<close>

definition accumulate :: "entry \<Rightarrow> lookup_table \<Rightarrow> lookup_table" where
  "accumulate record data =
     (let matchKey = getMatchKey record;
          data1 = (if \<not> containsKey data matchKey
                   then AList.update matchKey (initData record) data else data);
          data2 = AList.map_entry matchKey
                    (\<lambda>a. a\<lparr>hours := dadd (hours a) (dsub (HOURS record) (UNIT9 record))\<rparr>)
                    data1
      in AList.map_entry matchKey
           (\<lambda>a. a\<lparr>inTransit := dadd (inTransit a) (UNIT9 record)\<rparr>) data2)"

text \<open>Lines 127 to 133: the adjusting record of a double-rate record.\<close>

definition adjRecord :: "entry \<Rightarrow> entry" where
  "adjRecord record =
     \<lparr> DISPLAY_EMPLOYEE = DISPLAY_EMPLOYEE record,
       WORK_DT = WORK_DT record,
       LD1 = LD1 record,
       PAY_CODE = ''WORKED_ALLOCATED_REG'',
       EFF_RATE = EFF_RATE record,
       LD8 = LD8 record,
       HOURS = dmul (Finite (- 1)) (dsub (HOURS record) (UNIT9 record)),
       UNIT9 = dmul (Finite (- 1)) (UNIT9 record) \<rparr>"

lemma adjRecord_not_double:
  "\<not> inArray DOUBLE_RATE_PAY_CODES (PAY_CODE (adjRecord record))"
  by (simp add: adjRecord_def inArray_def DOUBLE_RATE_PAY_CODES_def)

function addData :: "entry \<Rightarrow> lookup_table \<Rightarrow> lookup_table" where
  "addData record data =
     (let data3 = accumulate record data
      in if inArray DOUBLE_RATE_PAY_CODES (PAY_CODE record)
         then addData (adjRecord record) data3
         else data3)"
  by pat_completeness auto
termination
  by (relation "measure (\<lambda>(record, data).
        if inArray DOUBLE_RATE_PAY_CODES (PAY_CODE record) then 1 else 0)")
     (auto simp: adjRecord_not_double)

text \<open>\<^verbatim>\<open>addData\<close> once more, now keeping a log of its nested calls: every
  \<^verbatim>\<open>this.addData(adjRecord)\<close> of line 134 that runs puts its argument in the log, ahead
  of what the nested call logs itself.\<close>

function addData_calls :: "entry \<Rightarrow> lookup_table \<Rightarrow> lookup_table \<times> entry list" where
  "addData_calls record data =
     (let data3 = accumulate record data
      in if inArray DOUBLE_RATE_PAY_CODES (PAY_CODE record)
         then (case addData_calls (adjRecord record) data3 of
                 (data4, calls) \<Rightarrow> (data4, adjRecord record # calls))
         else (data3, []))"
  by pat_completeness auto
termination
  by (relation "measure (\<lambda>(record, data).
        if inArray DOUBLE_RATE_PAY_CODES (PAY_CODE record) then 1 else 0)")
     (auto simp: adjRecord_not_double)

subsection \<open>Writing the sums\<close>

text \<open>\<^verbatim>\<open>writeData\<close> walks the table in key order and appends one row for every entry
  whose hours do not compare equal to zero.\<close>

definition writeData :: "lookup_table \<Rightarrow> aggregate list \<Rightarrow> aggregate list" where
  "writeData data writer =
     writer @ map snd (filter (\<lambda>(k, a). \<not> jsEquals (hours a) (Finite 0)) data)"

section \<open>Processing the batch\<close>

subsection \<open>Strings and the union code\<close>

definition substr :: "string \<Rightarrow> nat \<Rightarrow> nat \<Rightarrow> string" where
  "substr s start len = take len (drop start s)"

text \<open>\<^verbatim>\<open>toUpperCase\<close> on the letters a to z; every other character stays as it is (no
  character outside a to z has M or F as its upper case).\<close>

definition toUpperChar :: "char \<Rightarrow> char" where
  "toUpperChar c =
     (case map_of (zip ''abcdefghijklmnopqrstuvwxyz'' ''ABCDEFGHIJKLMNOPQRSTUVWXYZ'') c of
        Some u \<Rightarrow> u
      | None \<Rightarrow> c)"

definition toUpperCase :: "string \<Rightarrow> string" where
  "toUpperCase s = map toUpperChar s"

text \<open>
  What a property read of the union code map can give: nothing, null, a string (the
  union code, \<^verbatim>\<open>other_string6\<close>), or one of the functions and objects that every object
  inherits. The map is kept as its property read, \<^verbatim>\<open>unionCodeMap[key]\<close>.
\<close>

datatype js_value = JSUndefined | JSNull | JSString string | JSObject

type_synonym js_object = "string \<Rightarrow> js_value"

text \<open>The members of \<^verbatim>\<open>Object.prototype\<close> that the language standard names (a host
  may add more), and the object \<^verbatim>\<open>{}\<close> that \<^verbatim>\<open>buildUnionCodeMap\<close> starts from: it has
  no property of its own and inherits these. \<^verbatim>\<open>buildUnionCodeMap\<close> then assigns one
  property for every row of the employee query, \<^verbatim>\<open>returnMap[displayEmployee] = unionCode\<close>,
  written \<open>returnMap(displayEmployee := unionCode)\<close> here.\<close>

definition OBJECT_PROTOTYPE_MEMBERS :: "string list" where
  "OBJECT_PROTOTYPE_MEMBERS =
     [''constructor'', ''toString'', ''toLocaleString'', ''valueOf'', ''hasOwnProperty'',
      ''isPrototypeOf'', ''propertyIsEnumerable'']"

definition emptyObject :: js_object where
  "emptyObject key = (if key \<in> set OBJECT_PROTOTYPE_MEMBERS then JSObject else JSUndefined)"

text \<open>Modelled from the spec: \<^verbatim>\<open>isBlank\<close> is a helper of the included library
  \<^verbatim>\<open>JS_UTIL\<close>, which is not part of the sources; the spec takes a union code to be
  blank when it is absent or the empty string, and the comment above
  \<^verbatim>\<open>isUnionCodeNull\<close> says "null/undefined/empty".\<close>

definition isBlank :: "js_value \<Rightarrow> bool" where
  "isBlank v = (v = JSUndefined \<or> v = JSNull \<or> v = JSString [])"

text \<open>The global \<^verbatim>\<open>unionCodeMap\<close> is a parameter; \<open>None\<close> is the global that was
  never assigned.\<close>

definition isUnionCodeNull :: "js_object option \<Rightarrow> string \<Rightarrow> error + bool" where
  "isUnionCodeNull unionCodeMap display_employee =
     (case unionCodeMap of
        None \<Rightarrow> Inl UnionCodeUnavailable
      | Some m \<Rightarrow> (let unionCode = m display_employee in Inr (isBlank unionCode)))"

subsection \<open>The loop of \<^verbatim>\<open>processExportRecords\<close>\<close>

text \<open>
  The state of the loop: the group fields of the last record (\<open>None\<close> while they are
  all null, before the first record), the table of sums, the rows written so far, the
  records handed to \<^verbatim>\<open>rollbackRecord\<close>, and the record count of the log.
\<close>

record export_state =
  curData :: "match_key option"
  summedRecords :: lookup_table
  writer :: "aggregate list"
  rolledBack :: "entry list"
  recordCount :: nat

text \<open>Lines 212 to 225: the group fields of the record are compared one by one, with
  \<^verbatim>\<open>!=\<close>, to those remembered; when one differs, the sums are written, a new table is
  started and the fields of this record are remembered. The rate is a number, and a rate
  that is \<^verbatim>\<open>NaN\<close> differs from every rate.\<close>

definition sameGroup :: "match_key \<Rightarrow> match_key \<Rightarrow> bool" where
  "sameGroup k k' =
     (case (k, k') of
        ((e, d, l, p, r, j), (e', d', l', p', r', j')) \<Rightarrow>
          e = e' \<and> d = d' \<and> l = l' \<and> p = p' \<and> jsEquals r r' \<and> j = j')"

definition groupingChange :: "export_state \<Rightarrow> entry \<Rightarrow> bool" where
  "groupingChange st Record =
     (case curData st of
        None \<Rightarrow> True
      | Some k \<Rightarrow> \<not> sameGroup (getMatchKey Record) k)"

definition groupingStep :: "export_state \<Rightarrow> entry \<Rightarrow> export_state" where
  "groupingStep st Record =
     (if groupingChange st Record
      then st\<lparr> writer := writeData (summedRecords st) (writer st),
               summedRecords := [],
               curData := Some (getMatchKey Record) \<rparr>
      else st)"

text \<open>Lines 227 to 243, the rest of the \<^verbatim>\<open>try\<close> block. \<^verbatim>\<open>Record.ld1.substr\<close> throws
  on a null work order, \<^verbatim>\<open>isUnionCodeNull\<close> throws when there is no map; a
  \<^verbatim>\<open>continue\<close> leaves the state as it is.\<close>

definition filterAndAdd ::
  "string list \<Rightarrow> js_object option \<Rightarrow> export_state \<Rightarrow> entry \<Rightarrow> error + export_state" where
  "filterAndAdd payCodeSet unionCodeMap st Record =
     (if \<not> inArray payCodeSet (PAY_CODE Record) then Inr st
      else case LD1 Record of
        None \<Rightarrow> Inl TypeError
      | Some ld1 \<Rightarrow>
          (let prefix = toUpperCase (substr ld1 0 1)
           in if \<not> inArray VALID_FWO_PREFIXES prefix then Inr st
              else case isUnionCodeNull unionCodeMap (DISPLAY_EMPLOYEE Record) of
                Inl e \<Rightarrow> Inl e
              | Inr isNull \<Rightarrow>
                  (let Record' = (if isNull then Record\<lparr>EFF_RATE := Finite 0\<rparr> else Record)
                   in Inr (st\<lparr> summedRecords := addData Record' (summedRecords st),
                                recordCount := recordCount st + 1 \<rparr>))))"

text \<open>One round of the loop: the \<^verbatim>\<open>try\<close> block and its \<^verbatim>\<open>catch\<close>, which hands the
  record to \<^verbatim>\<open>rollbackRecord\<close> and goes on.\<close>

definition processRecord ::
  "string list \<Rightarrow> js_object option \<Rightarrow> export_state \<Rightarrow> entry \<Rightarrow> export_state" where
  "processRecord payCodeSet unionCodeMap st Record =
     (let st1 = groupingStep st Record
      in case filterAndAdd payCodeSet unionCodeMap st1 Record of
           Inl e \<Rightarrow> st1\<lparr>rolledBack := rolledBack st1 @ [Record]\<rparr>
         | Inr st2 \<Rightarrow> st2)"

definition initState :: "aggregate list \<Rightarrow> export_state" where
  "initState w =
     \<lparr> curData = None, summedRecords = [], writer = w, rolledBack = [], recordCount = 0 \<rparr>"

text \<open>The loop over the records of the batch, in the order the API returned them, and
  the last \<^verbatim>\<open>writeData\<close> after it. The batch is the result of \<^verbatim>\<open>computeDifferences\<close>
  and \<^verbatim>\<open>getExportDetails\<close>. This is the run that is not asked to abort.\<close>

definition processExportRecords ::
  "string list \<Rightarrow> js_object option \<Rightarrow> aggregate list \<Rightarrow> entry list \<Rightarrow> export_state" where
  "processExportRecords payCodeSet unionCodeMap w exportRecords =
     (let st = foldl (processRecord payCodeSet unionCodeMap) (initState w) exportRecords
      in st\<lparr>writer := writeData (summedRecords st) (writer st)\<rparr>)"

text \<open>\<^verbatim>\<open>jsHost.throwIfAbortRequested\<close> stands before the \<^verbatim>\<open>try\<close> block. When it throws
  at the round of record number \<open>n\<close>, the records before that one have been processed,
  the error leaves \<^verbatim>\<open>processExportRecords\<close> and the last \<^verbatim>\<open>writeData\<close> is not
  reached: this is the state the loop leaves behind.\<close>

definition processUntilAbort ::
  "string list \<Rightarrow> js_object option \<Rightarrow> aggregate list \<Rightarrow> entry list \<Rightarrow> nat \<Rightarrow> export_state" where
  "processUntilAbort payCodeSet unionCodeMap w exportRecords n =
     foldl (processRecord payCodeSet unionCodeMap) (initState w) (take n exportRecords)"

section \<open>The date window\<close>






declare addData.simps [simp del]

declare addData_calls.simps [simp del]

declare bitLength.simps [simp del]

section \<open>Derived notions\<close>

text \<open>What lines 120 and 122 do to the stored object of a key.\<close>

definition bump :: "entry \<Rightarrow> aggregate \<Rightarrow> aggregate" where
  "bump record a =
     a\<lparr> hours := dadd (hours a) (dsub (HOURS record) (UNIT9 record)),
        inTransit := dadd (inTransit a) (UNIT9 record) \<rparr>"

text \<open>The answer of \<^verbatim>\<open>isUnionCodeNull\<close> when the map exists, and the record that
  goes on to \<^verbatim>\<open>addData\<close> after lines 236 to 239.\<close>

definition unionBlank :: "js_object \<Rightarrow> string \<Rightarrow> bool" where
  "unionBlank m emp = isBlank (m emp)"

definition override :: "js_object \<Rightarrow> entry \<Rightarrow> entry" where
  "override m Record =
     (if unionBlank m (DISPLAY_EMPLOYEE Record) then Record\<lparr>EFF_RATE := Finite 0\<rparr> else Record)"

text \<open>The two checks of lines 228 to 233, and whether the \<^verbatim>\<open>try\<close> block of a record
  throws.\<close>

definition validPrefix :: "entry \<Rightarrow> bool" where
  "validPrefix Record =
     (case LD1 Record of None \<Rightarrow> False
      | Some ld1 \<Rightarrow> inArray VALID_FWO_PREFIXES (toUpperCase (substr ld1 0 1)))"

definition accepted :: "string list \<Rightarrow> entry \<Rightarrow> bool" where
  "accepted payCodeSet Record = (inArray payCodeSet (PAY_CODE Record) \<and> validPrefix Record)"

definition raises :: "string list \<Rightarrow> js_object option \<Rightarrow> entry \<Rightarrow> bool" where
  "raises payCodeSet unionCodeMap Record =
     isl (filterAndAdd payCodeSet unionCodeMap (initState []) Record)"

text \<open>The maximal runs of neighbouring records that the loop takes for one group: a run
  goes on while the group fields of the next record compare equal to those of its first
  record.\<close>

function runs :: "entry list \<Rightarrow> entry list list" where
  "runs [] = []"
| "runs (x # xs) =
     (x # takeWhile (\<lambda>y. sameGroup (getMatchKey y) (getMatchKey x)) xs)
     # runs (dropWhile (\<lambda>y. sameGroup (getMatchKey y) (getMatchKey x)) xs)"
  by pat_completeness auto
termination
  by (relation "measure length") (auto simp: length_dropWhile_le less_Suc_eq_le)

text \<open>What the script writes for one run. The hours of a row are the double that the
  additions of line 120 leave: starting from zero, the hours less the transit time of
  each record of the run are added in batch order, every subtraction and addition
  rounded; the transit time likewise. A double-rate run has a second row, of its
  adjusting records. Rows whose hours compare equal to zero are left out.\<close>

definition netHours :: "entry list \<Rightarrow> double" where
  "netHours run = foldl dadd (Finite 0) (map (\<lambda>e. dsub (HOURS e) (UNIT9 e)) run)"

definition transitTotal :: "entry list \<Rightarrow> double" where
  "transitTotal run = foldl dadd (Finite 0) (map UNIT9 run)"

definition effectiveRate :: "js_object \<Rightarrow> entry \<Rightarrow> double" where
  "effectiveRate m r = (if unionBlank m (DISPLAY_EMPLOYEE r) then Finite 0 else EFF_RATE r)"

definition primaryAggregate :: "js_object \<Rightarrow> entry \<Rightarrow> entry list \<Rightarrow> aggregate" where
  "primaryAggregate m r run =
     \<lparr> hours = netHours run, fwo = LD1 r, emplid = DISPLAY_EMPLOYEE r,
       workDt = WORK_DT r, payCode = PAY_CODE r,
       rate = (if inArray DOUBLE_RATE_PAY_CODES (PAY_CODE r)
               then dmul (Finite 2) (effectiveRate m r) else effectiveRate m r),
       jobCode = LD8 r, inTransit = transitTotal run \<rparr>"

definition compensatingAggregate :: "js_object \<Rightarrow> entry \<Rightarrow> entry list \<Rightarrow> aggregate" where
  "compensatingAggregate m r run =
     \<lparr> hours = netHours (map adjRecord run), fwo = LD1 r,
       emplid = DISPLAY_EMPLOYEE r, workDt = WORK_DT r,
       payCode = ''WORKED_ALLOCATED_REG'', rate = effectiveRate m r,
       jobCode = LD8 r, inTransit = transitTotal (map adjRecord run) \<rparr>"

definition exportedRows :: "string list \<Rightarrow> js_object \<Rightarrow> entry list \<Rightarrow> aggregate list" where
  "exportedRows payCodeSet m run =
     (case run of
        [] \<Rightarrow> []
      | r # _ \<Rightarrow>
          if accepted payCodeSet r
          then filter (\<lambda>a. \<not> jsEquals (hours a) (Finite 0))
                 (primaryAggregate m r run
                  # (if inArray DOUBLE_RATE_PAY_CODES (PAY_CODE r)
                     then [compensatingAggregate m r run] else []))
          else [])"

text \<open>The table of sums at the end of a run.\<close>

definition runTable :: "string list \<Rightarrow> js_object \<Rightarrow> entry list \<Rightarrow> lookup_table" where
  "runTable payCodeSet m run =
     (case run of
        [] \<Rightarrow> []
      | r # _ \<Rightarrow>
          if \<not> accepted payCodeSet r then []
          else (getMatchKey (override m r), primaryAggregate m r run)
               # (if inArray DOUBLE_RATE_PAY_CODES (PAY_CODE r)
                  then [(getMatchKey (adjRecord (override m r)), compensatingAggregate m r run)]
                  else []))"

text \<open>The rows the writer holds once the table of a state has been written.\<close>

definition flushed :: "export_state \<Rightarrow> aggregate list" where
  "flushed st = writeData (summedRecords st) (writer st)"

text \<open>A state in which no sums are open while the group fields are those of a record
  whose \<^verbatim>\<open>try\<close> block throws.\<close>

definition emptyWhenRaising :: "string list \<Rightarrow> js_object option \<Rightarrow> export_state \<Rightarrow> bool" where
  "emptyWhenRaising payCodeSet unionCodeMap st =
     (\<forall>e. curData st = Some (getMatchKey e) \<longrightarrow> raises payCodeSet unionCodeMap e \<longrightarrow>
          summedRecords st = [])"

text \<open>A record and a union code map to run the script on: employee \<^verbatim>\<open>E1\<close> at rate 40,
  and the map \<^verbatim>\<open>{}\<close> after \<^verbatim>\<open>returnMap["E1"] = "U"\<close>.\<close>

definition sampleRecord :: "string \<Rightarrow> string option \<Rightarrow> double \<Rightarrow> double \<Rightarrow> entry" where
  "sampleRecord pc ld1 h t =
     \<lparr> DISPLAY_EMPLOYEE = ''E1'', WORK_DT = \<lparr>year = 2024, month = 1, day = 2\<rparr>,
       LD1 = ld1, PAY_CODE = pc, EFF_RATE = Finite 40, LD8 = Some ''JC'', HOURS = h,
       UNIT9 = t \<rparr>"

definition sampleUnionMap :: js_object where
  "sampleUnionMap = emptyObject(''E1'' := JSString ''U'')"






section \<open>Lemmas about the table and the loop\<close>

lemma jsEquals_zero: "jsEquals x (Finite 0) \<longleftrightarrow> x = Finite 0"
  by (auto simp: jsEquals_def)

lemma sameGroup_eq: "sameGroup k k' \<Longrightarrow> k = k'"
  by (auto simp: sameGroup_def jsEquals_def split: prod.splits)

lemma update_absent: "k \<notin> fst ` set data \<Longrightarrow> AList.update k v data = data @ [(k, v)]"
  by (induction data) auto

lemma map_entry_append_new:
  "k \<notin> fst ` set data \<Longrightarrow> AList.map_entry k f (data @ [(k, v)]) = data @ [(k, f v)]"
  by (induction data) auto

lemma map_entry_twice:
  "AList.map_entry k f (AList.map_entry k g data) = AList.map_entry k (\<lambda>a. f (g a)) data"
  by (induction data) auto

lemma accumulate_eq:
  "accumulate record data =
     (if containsKey data (getMatchKey record)
      then AList.map_entry (getMatchKey record) (bump record) data
      else data @ [(getMatchKey record, bump record (initData record))])"
  by (simp add: accumulate_def Let_def containsKey_def update_absent map_entry_append_new
      map_entry_twice bump_def[abs_def])

lemma addData_eq:
  "addData record data =
     (if inArray DOUBLE_RATE_PAY_CODES (PAY_CODE record)
      then accumulate (adjRecord record) (accumulate record data)
      else accumulate record data)"
  by (simp add: addData.simps[of "record"] addData.simps[of "adjRecord record"] Let_def
      adjRecord_not_double)

lemma addData_calls_eq:
  "addData_calls record data =
     (addData record data,
      if inArray DOUBLE_RATE_PAY_CODES (PAY_CODE record) then [adjRecord record] else [])"
  by (simp add: addData_calls.simps[of "record"] addData_calls.simps[of "adjRecord record"]
      addData_eq Let_def adjRecord_not_double)

lemma filterAndAdd_cases:
  "filterAndAdd payCodeSet unionCodeMap st Record =
     (if \<not> inArray payCodeSet (PAY_CODE Record) then Inr st
      else if LD1 Record = None then Inl TypeError
      else if \<not> validPrefix Record then Inr st
      else case unionCodeMap of
             None \<Rightarrow> Inl UnionCodeUnavailable
           | Some m \<Rightarrow>
               Inr (st\<lparr> summedRecords := addData (override m Record) (summedRecords st),
                         recordCount := recordCount st + 1 \<rparr>))"
  unfolding filterAndAdd_def validPrefix_def isUnionCodeNull_def override_def unionBlank_def Let_def
  by (simp split: option.split)

lemma raises_iff:
  "raises payCodeSet unionCodeMap Record \<longleftrightarrow>
     inArray payCodeSet (PAY_CODE Record) \<and>
     (LD1 Record = None \<or> (validPrefix Record \<and> unionCodeMap = None))"
  unfolding raises_def filterAndAdd_cases by (simp split: option.split)

lemma raises_key:
  "getMatchKey r = getMatchKey r' \<Longrightarrow> raises payCodeSet unionCodeMap r = raises payCodeSet unionCodeMap r'"
  by (simp add: raises_iff validPrefix_def getMatchKey_def)

lemma accepted_key:
  "getMatchKey r = getMatchKey r' \<Longrightarrow> accepted payCodeSet r = accepted payCodeSet r'"
  by (simp add: accepted_def validPrefix_def getMatchKey_def)

lemma no_change_key:
  "\<not> groupingChange st Record \<Longrightarrow> curData st = Some (getMatchKey Record)"
  by (auto simp: groupingChange_def split: option.splits dest: sameGroup_eq)

lemma groupingChange_init: "groupingChange (initState w) Record"
  by (simp add: groupingChange_def initState_def)

text \<open>The fields of the state after one round.\<close>

lemma curData_processRecord:
  "curData (processRecord payCodeSet unionCodeMap st Record) = Some (getMatchKey Record)"
proof (cases "groupingChange st Record")
  case True
  then show ?thesis
    unfolding processRecord_def Let_def filterAndAdd_cases groupingStep_def
    by (simp split: option.split)
next
  case False
  with no_change_key[OF False] show ?thesis
    unfolding processRecord_def Let_def filterAndAdd_cases groupingStep_def
    by (simp split: option.split)
qed

lemma rolledBack_processRecord:
  "rolledBack (processRecord payCodeSet unionCodeMap st Record) =
     rolledBack st @ (if raises payCodeSet unionCodeMap Record then [Record] else [])"
  unfolding processRecord_def Let_def filterAndAdd_cases groupingStep_def raises_iff
  by (simp split: option.split)

lemma writer_processRecord:
  "writer (processRecord payCodeSet unionCodeMap st Record) =
     (if groupingChange st Record then writeData (summedRecords st) (writer st)
      else writer st)"
  unfolding processRecord_def Let_def filterAndAdd_cases groupingStep_def
  by (simp split: option.split)

lemma summedRecords_processRecord:
  "summedRecords (processRecord payCodeSet unionCodeMap st Record) =
     (let t = (if groupingChange st Record then [] else summedRecords st)
      in case unionCodeMap of
           None \<Rightarrow> t
         | Some m \<Rightarrow>
             if accepted payCodeSet Record then addData (override m Record) t else t)"
  unfolding processRecord_def Let_def filterAndAdd_cases groupingStep_def accepted_def
  by (auto split: option.split simp: validPrefix_def)

lemma accumulate_Nil: "accumulate e [] = [(getMatchKey e, bump e (initData e))]"
  by (simp add: accumulate_eq containsKey_def)

lemma accumulate_single_same:
  "getMatchKey e = k \<Longrightarrow> accumulate e [(k, a)] = [(k, bump e a)]"
  by (simp add: accumulate_eq containsKey_def)

lemma accumulate_single_other:
  "getMatchKey e \<noteq> k \<Longrightarrow>
   accumulate e [(k, a)] = [(k, a), (getMatchKey e, bump e (initData e))]"
  by (simp add: accumulate_eq containsKey_def)

lemma accumulate_pair_first:
  "getMatchKey e = k \<Longrightarrow> accumulate e [(k, a), (kc, c)] = [(k, bump e a), (kc, c)]"
  by (simp add: accumulate_eq containsKey_def)

lemma accumulate_pair_second:
  "getMatchKey e = kc \<Longrightarrow> k \<noteq> kc \<Longrightarrow>
   accumulate e [(k, a), (kc, c)] = [(k, a), (kc, bump e c)]"
  by (simp add: accumulate_eq containsKey_def)

lemma foldl_bump:
  "foldl (\<lambda>a e. bump e a) a es =
     a\<lparr> hours := foldl dadd (hours a) (map (\<lambda>e. dsub (HOURS e) (UNIT9 e)) es),
        inTransit := foldl dadd (inTransit a) (map UNIT9 es) \<rparr>"
  by (induction es arbitrary: a) (simp_all add: bump_def)

lemma addData_run_single:
  "\<forall>e \<in> set es. getMatchKey e = k \<and> \<not> inArray DOUBLE_RATE_PAY_CODES (PAY_CODE e) \<Longrightarrow>
   foldl (\<lambda>t e. addData e t) [(k, a)] es = [(k, foldl (\<lambda>a e. bump e a) a es)]"
  by (induction es arbitrary: a) (simp_all add: addData_eq accumulate_single_same)

lemma addData_run_pair:
  "\<forall>e \<in> set es. getMatchKey e = k \<and> inArray DOUBLE_RATE_PAY_CODES (PAY_CODE e) \<and>
       getMatchKey (adjRecord e) = kc \<Longrightarrow>
   k \<noteq> kc \<Longrightarrow>
   foldl (\<lambda>t e. addData e t) [(k, a), (kc, c)] es =
     [(k, foldl (\<lambda>a e. bump e a) a es), (kc, foldl (\<lambda>c e. bump e c) c (map adjRecord es))]"
  by (induction es arbitrary: a c)
     (simp_all add: addData_eq accumulate_pair_first accumulate_pair_second)

lemma writeData_runTable: "writeData (runTable payCodeSet m run) [] = exportedRows payCodeSet m run"
  by (simp add: writeData_def runTable_def exportedRows_def split: list.split)

lemma override_fields:
  "DISPLAY_EMPLOYEE (override m r) = DISPLAY_EMPLOYEE r"
  "WORK_DT (override m r) = WORK_DT r"
  "LD1 (override m r) = LD1 r"
  "PAY_CODE (override m r) = PAY_CODE r"
  "LD8 (override m r) = LD8 r"
  "HOURS (override m r) = HOURS r"
  "UNIT9 (override m r) = UNIT9 r"
  "EFF_RATE (override m r) = effectiveRate m r"
  by (simp_all add: override_def effectiveRate_def)

lemma override_key:
  "getMatchKey e = getMatchKey r \<Longrightarrow> getMatchKey (override m e) = getMatchKey (override m r)"
  by (simp add: getMatchKey_def override_fields effectiveRate_def)

lemma double_not_WAR:
  "inArray DOUBLE_RATE_PAY_CODES p \<Longrightarrow> p \<noteq> ''WORKED_ALLOCATED_REG''"
  by (auto simp: inArray_def DOUBLE_RATE_PAY_CODES_def)

lemma adjRecord_override_hours:
  "map (\<lambda>e. dsub (HOURS e) (UNIT9 e)) (map adjRecord (map (override m) es)) =
   map (\<lambda>e. dsub (HOURS e) (UNIT9 e)) (map adjRecord es)"
  "map UNIT9 (map adjRecord (map (override m) es)) = map UNIT9 (map adjRecord es)"
  by (simp_all add: adjRecord_def override_fields)

lemma override_hours:
  "map (\<lambda>e. dsub (HOURS e) (UNIT9 e)) (map (override m) es) =
   map (\<lambda>e. dsub (HOURS e) (UNIT9 e)) es"
  "map UNIT9 (map (override m) es) = map UNIT9 es"
  by (simp_all add: override_fields)

lemma addData_run_closed:
  assumes same: "\<forall>e \<in> set es. getMatchKey e = getMatchKey r"
    and acc: "accepted payCodeSet r"
  shows "foldl (\<lambda>t e. addData (override m e) t) [] (r # es) = runTable payCodeSet m (r # es)"
proof -
  let ?g = "override m"
  let ?k = "getMatchKey (?g r)"
  let ?kc = "getMatchKey (adjRecord (?g r))"
  let ?net = "\<lambda>e. dsub (HOURS e) (UNIT9 e)"
  have fold_map: "foldl (\<lambda>t e. addData (?g e) t) t es = foldl (\<lambda>t e. addData e t) t (map ?g es)" for t
    by (simp add: foldl_map)
  have keys: "\<forall>e \<in> set (map ?g es). getMatchKey e = ?k"
    using same by (auto intro: override_key)
  have pcs: "\<forall>e \<in> set (map ?g es). PAY_CODE e = PAY_CODE r"
    using same by (auto simp: getMatchKey_def override_fields)
  show ?thesis
  proof (cases "inArray DOUBLE_RATE_PAY_CODES (PAY_CODE r)")
    case False
    have first: "addData (?g r) [] = [(?k, bump (?g r) (initData (?g r)))]"
      using False by (simp add: addData_eq accumulate_Nil override_fields)
    have "foldl (\<lambda>t e. addData e t) [(?k, bump (?g r) (initData (?g r)))] (map ?g es) =
        [(?k, foldl (\<lambda>a e. bump e a) (bump (?g r) (initData (?g r))) (map ?g es))]"
      by (rule addData_run_single) (use keys pcs False in auto)
    then have "foldl (\<lambda>t e. addData (?g e) t) [] (r # es) =
        [(?k, (bump (?g r) (initData (?g r)))
               \<lparr> hours := foldl dadd (hours (bump (?g r) (initData (?g r)))) (map ?net es),
                  inTransit := foldl dadd (inTransit (bump (?g r) (initData (?g r))))
                                 (map UNIT9 es) \<rparr>)]"
      by (simp only: foldl.simps first fold_map foldl_bump override_hours)
    then show ?thesis
      using False acc
      by (simp add: runTable_def primaryAggregate_def netHours_def transitTotal_def
          bump_def initData_def override_fields)
  next
    case True
    have ne: "?k \<noteq> ?kc"
      using double_not_WAR[OF True] by (simp add: getMatchKey_def adjRecord_def override_fields)
    have first: "addData (?g r) [] =
        [(?k, bump (?g r) (initData (?g r))),
         (?kc, bump (adjRecord (?g r)) (initData (adjRecord (?g r))))]"
      using True ne by (simp add: addData_eq accumulate_Nil accumulate_single_other override_fields)
    have adjk: "\<forall>e \<in> set (map ?g es). getMatchKey (adjRecord e) = ?kc"
      using keys by (auto simp: getMatchKey_def adjRecord_def)
    have "foldl (\<lambda>t e. addData e t)
            [(?k, bump (?g r) (initData (?g r))),
             (?kc, bump (adjRecord (?g r)) (initData (adjRecord (?g r))))] (map ?g es) =
        [(?k, foldl (\<lambda>a e. bump e a) (bump (?g r) (initData (?g r))) (map ?g es)),
         (?kc, foldl (\<lambda>c e. bump e c) (bump (adjRecord (?g r)) (initData (adjRecord (?g r))))
                 (map adjRecord (map ?g es)))]"
      by (rule addData_run_pair) (use keys pcs True adjk ne in auto)
    then have "foldl (\<lambda>t e. addData (?g e) t) [] (r # es) =
        [(?k, (bump (?g r) (initData (?g r)))
               \<lparr> hours := foldl dadd (hours (bump (?g r) (initData (?g r)))) (map ?net es),
                  inTransit := foldl dadd (inTransit (bump (?g r) (initData (?g r))))
                                 (map UNIT9 es) \<rparr>),
         (?kc, (bump (adjRecord (?g r)) (initData (adjRecord (?g r))))
               \<lparr> hours := foldl dadd (hours (bump (adjRecord (?g r)) (initData (adjRecord (?g r)))))
                            (map ?net (map adjRecord es)),
                  inTransit := foldl dadd
                                 (inTransit (bump (adjRecord (?g r)) (initData (adjRecord (?g r)))))
                                 (map UNIT9 (map adjRecord es)) \<rparr>)]"
      by (simp only: foldl.simps first fold_map foldl_bump override_hours
          adjRecord_override_hours)
    moreover have "\<not> inArray DOUBLE_RATE_PAY_CODES ''WORKED_ALLOCATED_REG''"
      by (simp add: inArray_def DOUBLE_RATE_PAY_CODES_def)
    moreover have "HOURS (adjRecord (?g r)) = HOURS (adjRecord r)"
      "UNIT9 (adjRecord (?g r)) = UNIT9 (adjRecord r)"
      by (simp_all add: adjRecord_def override_fields)
    ultimately show ?thesis
      using True acc
      by (simp add: runTable_def primaryAggregate_def compensatingAggregate_def
          netHours_def transitTotal_def bump_def initData_def override_fields
          adjRecord_def[of "override m r"])
  qed
qed

lemma writeData_append: "writeData t w = w @ writeData t []"
  by (simp add: writeData_def)

lemma same_key_fold:
  assumes "\<forall>e \<in> set es. sameGroup (getMatchKey e) k" and "curData st = Some k"
  shows "curData (foldl (processRecord payCodeSet (Some m)) st es) = Some k \<and>
         writer (foldl (processRecord payCodeSet (Some m)) st es) = writer st \<and>
         summedRecords (foldl (processRecord payCodeSet (Some m)) st es) =
           foldl (\<lambda>t e. if accepted payCodeSet e then addData (override m e) t else t)
             (summedRecords st) es"
  using assms
proof (induction es arbitrary: st)
  case Nil
  then show ?case by simp
next
  case (Cons e es)
  let ?st = "processRecord payCodeSet (Some m) st e"
  have sg: "sameGroup (getMatchKey e) k" using Cons.prems by simp
  then have k: "getMatchKey e = k" by (rule sameGroup_eq)
  have nc: "\<not> groupingChange st e"
    using sg Cons.prems(2) by (simp add: groupingChange_def)
  have c: "curData ?st = Some k" by (simp add: curData_processRecord k)
  have w: "writer ?st = writer st" using nc by (simp add: writer_processRecord)
  have t: "summedRecords ?st =
      (if accepted payCodeSet e then addData (override m e) (summedRecords st) else summedRecords st)"
    using nc by (simp add: summedRecords_processRecord)
  from Cons.IH[of ?st] Cons.prems(1) c show ?case by (simp add: w t)
qed

lemma run_state:
  assumes same: "\<forall>e \<in> set es. sameGroup (getMatchKey e) (getMatchKey r)"
    and new: "groupingChange st r"
  shows "curData (foldl (processRecord payCodeSet (Some m)) st (r # es)) = Some (getMatchKey r)"
    and "writer (foldl (processRecord payCodeSet (Some m)) st (r # es)) =
           writeData (summedRecords st) (writer st)"
    and "summedRecords (foldl (processRecord payCodeSet (Some m)) st (r # es)) =
           runTable payCodeSet m (r # es)"
proof -
  let ?st = "processRecord payCodeSet (Some m) st r"
  have c: "curData ?st = Some (getMatchKey r)" by (simp add: curData_processRecord)
  have w: "writer ?st = writeData (summedRecords st) (writer st)"
    using new by (simp add: writer_processRecord)
  have t: "summedRecords ?st = (if accepted payCodeSet r then addData (override m r) [] else [])"
    using new by (simp add: summedRecords_processRecord)
  note f = same_key_fold[OF same c, of payCodeSet m]
  have keys: "\<forall>e \<in> set es. getMatchKey e = getMatchKey r"
    using same sameGroup_eq by blast
  show "curData (foldl (processRecord payCodeSet (Some m)) st (r # es)) = Some (getMatchKey r)"
    using f by simp
  show "writer (foldl (processRecord payCodeSet (Some m)) st (r # es)) =
           writeData (summedRecords st) (writer st)"
    using f w by simp
  have acc: "\<forall>e \<in> set es. accepted payCodeSet e = accepted payCodeSet r"
    using keys accepted_key by blast
  show "summedRecords (foldl (processRecord payCodeSet (Some m)) st (r # es)) =
           runTable payCodeSet m (r # es)"
  proof (cases "accepted payCodeSet r")
    case True
    have "foldl (\<lambda>t e. if accepted payCodeSet e then addData (override m e) t else t) t es =
          foldl (\<lambda>t e. addData (override m e) t) t es" for t
      using acc True by (induction es arbitrary: t) simp_all
    then show ?thesis
      using f t True addData_run_closed[OF keys True, of m] by simp
  next
    case False
    have "foldl (\<lambda>t e. if accepted payCodeSet e then addData (override m e) t else t) t es = t" for t
      using acc False by (induction es arbitrary: t) simp_all
    then show ?thesis
      using f t False by (simp add: runTable_def)
  qed
qed

lemma runs_not_Nil: "xs \<noteq> [] \<Longrightarrow> runs xs \<noteq> []"
  by (cases xs) simp_all

lemma batch_state:
  "xs \<noteq> [] \<Longrightarrow> groupingChange st (hd xs) \<Longrightarrow>
   summedRecords (foldl (processRecord payCodeSet (Some m)) st xs) =
     runTable payCodeSet m (last (runs xs)) \<and>
   writer (foldl (processRecord payCodeSet (Some m)) st xs) =
     writeData (summedRecords st) (writer st)
     @ concat (map (exportedRows payCodeSet m) (butlast (runs xs)))"
proof (induction xs arbitrary: st rule: runs.induct)
  case 1
  then show ?case by simp
next
  case (2 x xs)
  let ?same = "\<lambda>y. sameGroup (getMatchKey y) (getMatchKey x)"
  let ?tw = "takeWhile ?same xs"
  let ?dw = "dropWhile ?same xs"
  let ?step = "processRecord payCodeSet (Some m)"
  let ?st1 = "foldl ?step st (x # ?tw)"
  have same: "\<forall>e \<in> set ?tw. sameGroup (getMatchKey e) (getMatchKey x)"
    by (auto dest: set_takeWhileD)
  have new: "groupingChange st x" using "2.prems" by simp
  note rs = run_state[OF same new, of payCodeSet m]
  have split: "foldl ?step st (x # xs) = foldl ?step ?st1 ?dw"
  proof -
    have "x # xs = (x # ?tw) @ ?dw" by simp
    then have "foldl ?step st (x # xs) = foldl ?step st ((x # ?tw) @ ?dw)" by simp
    then show ?thesis by (simp only: foldl_append)
  qed
  show ?case
  proof (cases "?dw = []")
    case True
    have r: "runs (x # xs) = [x # ?tw]" by (simp only: runs.simps True)
    have "foldl ?step ?st1 ?dw = ?st1" by (simp only: True foldl.simps)
    with split have "foldl ?step st (x # xs) = ?st1" by (rule trans)
    then show ?thesis using rs(2,3) by (simp only: r) simp
  next
    case False
    have "\<not> ?same (hd ?dw)" using False by (rule hd_dropWhile)
    then have "groupingChange ?st1 (hd ?dw)"
      using rs(1) by (simp add: groupingChange_def)
    from "2.IH"[OF False this] have
      ih1: "summedRecords (foldl ?step ?st1 ?dw) = runTable payCodeSet m (last (runs ?dw))"
      and ih2: "writer (foldl ?step ?st1 ?dw) =
          writeData (summedRecords ?st1) (writer ?st1)
          @ concat (map (exportedRows payCodeSet m) (butlast (runs ?dw)))"
      by blast+
    have ne: "runs ?dw \<noteq> []" using False by (rule runs_not_Nil)
    have r: "runs (x # xs) = (x # ?tw) # runs ?dw" by (simp only: runs.simps)
    have l: "last (runs (x # xs)) = last (runs ?dw)" using ne by (simp only: r last.simps if_False)
    have b: "butlast (runs (x # xs)) = (x # ?tw) # butlast (runs ?dw)"
      using ne by (simp only: r butlast.simps if_False)
    have w1: "writeData (summedRecords ?st1) (writer ?st1) =
        writeData (summedRecords st) (writer st) @ exportedRows payCodeSet m (x # ?tw)"
      by (simp only: rs(2,3) writeData_runTable[symmetric]
          writeData_append[of "runTable _ _ _" "writeData _ _"])
    show ?thesis
      by (simp only: split ih1 ih2 l b w1) simp
  qed
qed

lemma concat_butlast_last:
  "rs \<noteq> [] \<Longrightarrow> concat (map f rs) = concat (map f (butlast rs)) @ f (last rs)"
  by (induction rs) auto

lemma output_runs:
  "writer (processExportRecords payCodeSet (Some m) w batch) =
     w @ concat (map (exportedRows payCodeSet m) (runs batch))"
proof (cases "batch = []")
  case True
  then show ?thesis by (simp add: processExportRecords_def initState_def writeData_def)
next
  case False
  from batch_state[OF False groupingChange_init, of payCodeSet m w] have
    t: "summedRecords (foldl (processRecord payCodeSet (Some m)) (initState w) batch) =
         runTable payCodeSet m (last (runs batch))"
    and wr: "writer (foldl (processRecord payCodeSet (Some m)) (initState w) batch) =
         w @ concat (map (exportedRows payCodeSet m) (butlast (runs batch)))"
    by (simp_all add: initState_def writeData_def)
  show ?thesis
    by (simp add: processExportRecords_def Let_def t wr writeData_runTable
        concat_butlast_last[OF runs_not_Nil[OF False]] writeData_append[of _ "_ @ _"])
qed

lemma rolledBack_foldl:
  "rolledBack (foldl (processRecord payCodeSet unionCodeMap) st xs) =
     rolledBack st @ filter (raises payCodeSet unionCodeMap) xs"
  by (induction xs arbitrary: st) (simp_all add: rolledBack_processRecord)



lemma isUnionCodeNull_Some: "isUnionCodeNull (Some m) emp = Inr (unionBlank m emp)"
  by (simp add: isUnionCodeNull_def unionBlank_def)

lemma raising_not_accepted:
  "raises payCodeSet (Some m) r \<Longrightarrow> \<not> accepted payCodeSet r"
  by (simp add: raises_iff accepted_def validPrefix_def)

lemma summedRecords_raising:
  "raises payCodeSet unionCodeMap r \<Longrightarrow>
   summedRecords (processRecord payCodeSet unionCodeMap st r) =
     (if groupingChange st r then [] else summedRecords st)"
  by (cases unionCodeMap) (simp_all add: summedRecords_processRecord raising_not_accepted)

lemma emptyWhenRaising_step:
  assumes "emptyWhenRaising payCodeSet unionCodeMap st"
  shows "emptyWhenRaising payCodeSet unionCodeMap (processRecord payCodeSet unionCodeMap st r)"
  unfolding emptyWhenRaising_def
proof (intro allI impI)
  fix e
  assume c: "curData (processRecord payCodeSet unionCodeMap st r) = Some (getMatchKey e)"
    and re: "raises payCodeSet unionCodeMap e"
  from c have k: "getMatchKey r = getMatchKey e" by (simp add: curData_processRecord)
  with re have rr: "raises payCodeSet unionCodeMap r" using raises_key by blast
  show "summedRecords (processRecord payCodeSet unionCodeMap st r) = []"
  proof (cases "groupingChange st r")
    case True
    then show ?thesis using rr by (simp add: summedRecords_raising)
  next
    case False
    from no_change_key[OF False] assms rr have "summedRecords st = []"
      by (auto simp: emptyWhenRaising_def)
    then show ?thesis using rr False by (simp add: summedRecords_raising)
  qed
qed

lemma emptyWhenRaising_foldl:
  "emptyWhenRaising payCodeSet unionCodeMap st \<Longrightarrow>
   emptyWhenRaising payCodeSet unionCodeMap (foldl (processRecord payCodeSet unionCodeMap) st xs)"
  by (induction xs arbitrary: st) (simp_all add: emptyWhenRaising_step)

lemma emptyWhenRaising_init: "emptyWhenRaising payCodeSet unionCodeMap (initState w)"
  by (simp add: emptyWhenRaising_def initState_def)

text \<open>States that agree on the group fields, the table and the rows written stay so.\<close>

lemma agree_step:
  assumes "curData s = curData t" "summedRecords s = summedRecords t" "writer s = writer t"
  shows "curData (processRecord payCodeSet unionCodeMap s r) =
           curData (processRecord payCodeSet unionCodeMap t r) \<and>
         summedRecords (processRecord payCodeSet unionCodeMap s r) =
           summedRecords (processRecord payCodeSet unionCodeMap t r) \<and>
         writer (processRecord payCodeSet unionCodeMap s r) =
           writer (processRecord payCodeSet unionCodeMap t r)"
proof -
  have g: "groupingChange s r = groupingChange t r"
    using assms(1) by (simp add: groupingChange_def)
  show ?thesis
    by (simp only: curData_processRecord summedRecords_processRecord writer_processRecord g
        assms(2,3) simp_thms)
qed

lemma agree_foldl:
  assumes "curData s = curData t" "summedRecords s = summedRecords t" "writer s = writer t"
  shows "flushed (foldl (processRecord payCodeSet unionCodeMap) s xs) =
         flushed (foldl (processRecord payCodeSet unionCodeMap) t xs)"
  using assms
proof (induction xs arbitrary: s t)
  case Nil
  then show ?case by (simp only: foldl.simps flushed_def)
next
  case (Cons x xs)
  note a = agree_step[OF Cons.prems, of payCodeSet unionCodeMap x]
  have "flushed (foldl (processRecord payCodeSet unionCodeMap)
                  (processRecord payCodeSet unionCodeMap s x) xs) =
        flushed (foldl (processRecord payCodeSet unionCodeMap)
                  (processRecord payCodeSet unionCodeMap t x) xs)"
    by (rule Cons.IH[OF conjunct1[OF a] conjunct1[OF conjunct2[OF a]]
          conjunct2[OF conjunct2[OF a]]])
  then show ?case by (simp only: foldl.simps)
qed

text \<open>With an empty table, the remembered group fields do not matter.\<close>

lemma empty_table_restart:
  assumes "summedRecords s = []"
  shows "flushed (foldl (processRecord payCodeSet unionCodeMap) s ys) =
         flushed (foldl (processRecord payCodeSet unionCodeMap) (initState (writer s)) ys)"
proof (cases ys)
  case Nil
  then show ?thesis using assms by (simp add: flushed_def initState_def)
next
  case (Cons y ys')
  have "curData (processRecord payCodeSet unionCodeMap s y) =
          curData (processRecord payCodeSet unionCodeMap (initState (writer s)) y)"
    "summedRecords (processRecord payCodeSet unionCodeMap s y) =
          summedRecords (processRecord payCodeSet unionCodeMap (initState (writer s)) y)"
    "writer (processRecord payCodeSet unionCodeMap s y) =
          writer (processRecord payCodeSet unionCodeMap (initState (writer s)) y)"
    using assms
    by (simp_all add: curData_processRecord summedRecords_processRecord writer_processRecord
        groupingChange_init initState_def[of "writer s"] writeData_def)
  from agree_foldl[OF this] show ?thesis by (simp only: Cons foldl.simps)
qed

lemma writer_processExportRecords:
  "writer (processExportRecords payCodeSet unionCodeMap w xs) =
     flushed (foldl (processRecord payCodeSet unionCodeMap) (initState w) xs)"
  by (simp add: processExportRecords_def Let_def flushed_def)

lemma toUpperChar_M: "toUpperChar c = CHR ''M'' \<longleftrightarrow> c = CHR ''m'' \<or> c = CHR ''M''"
  by (auto simp: toUpperChar_def split: option.splits if_splits)

lemma toUpperChar_F: "toUpperChar c = CHR ''F'' \<longleftrightarrow> c = CHR ''f'' \<or> c = CHR ''F''"
  by (auto simp: toUpperChar_def split: option.splits if_splits)

lemma prefix_check:
  "inArray VALID_FWO_PREFIXES (toUpperCase (substr ld1 0 1)) \<longleftrightarrow>
     (case ld1 of [] \<Rightarrow> False
      | c # _ \<Rightarrow> c = CHR ''M'' \<or> c = CHR ''m'' \<or> c = CHR ''F'' \<or> c = CHR ''f'')"
  by (cases ld1)
     (auto simp: inArray_def VALID_FWO_PREFIXES_def toUpperCase_def substr_def toUpperChar_M
      toUpperChar_F)

lemma validPrefix_iff:
  "validPrefix R \<longleftrightarrow>
     (case LD1 R of None \<Rightarrow> False
      | Some l \<Rightarrow> (case l of [] \<Rightarrow> False
          | c # _ \<Rightarrow> c = CHR ''M'' \<or> c = CHR ''m'' \<or> c = CHR ''F'' \<or> c = CHR ''f''))"
  unfolding validPrefix_def prefix_check by (rule refl)

lemma filterAndAdd_prefix:
  assumes "inArray payCodeSet (PAY_CODE R)" and "LD1 R = Some l"
  shows "filterAndAdd payCodeSet (Some m) st R =
        (if (case l of [] \<Rightarrow> False
             | c # _ \<Rightarrow> c = CHR ''M'' \<or> c = CHR ''m'' \<or> c = CHR ''F'' \<or> c = CHR ''f'')
         then Inr (st\<lparr> summedRecords := addData (override m R) (summedRecords st),
                       recordCount := recordCount st + 1 \<rparr>)
         else Inr st)"
  using assms by (simp add: filterAndAdd_cases validPrefix_iff)






lemma rnd_zero: "rnd 0 = Finite 0"
  by (simp add: rnd_def)

lemma exportedRows_rate:
  "a \<in> set (exportedRows payCodeSet m run) \<Longrightarrow> unionBlank m (emplid a) \<Longrightarrow> rate a = Finite 0"
  by (auto simp: exportedRows_def primaryAggregate_def compensatingAggregate_def
      effectiveRate_def dmul_def rnd_zero split: list.splits if_splits)

text \<open>
  What lines 236 to 239 do with the union code, in terms of the property read
  \<^verbatim>\<open>unionCodeMap[display_employee]\<close>: every row written for an employee for whom the
  read gives undefined, null or the empty string has the rate 0; and a record that passes
  the checks and for whose employee the read gives anything else goes to \<^verbatim>\<open>addData\<close>
  as it is, its rate untouched.
\<close>

lemma union_code_override:
  "(a \<in> set (writer (processExportRecords payCodeSet (Some m) [] batch)) \<and>
      (m (emplid a) = JSUndefined \<or> m (emplid a) = JSNull \<or> m (emplid a) = JSString '''')
      \<longrightarrow> rate a = Finite 0)
   \<and> (accepted payCodeSet Record \<and>
        m (DISPLAY_EMPLOYEE Record) \<noteq> JSUndefined \<and> m (DISPLAY_EMPLOYEE Record) \<noteq> JSNull \<and>
        m (DISPLAY_EMPLOYEE Record) \<noteq> JSString '''' \<longrightarrow>
        filterAndAdd payCodeSet (Some m) st Record =
          Inr (st\<lparr> summedRecords := addData Record (summedRecords st),
                    recordCount := recordCount st + 1 \<rparr>))"
proof -
  have one: "rate a = Finite 0"
    if "a \<in> set (writer (processExportRecords payCodeSet (Some m) [] batch))"
      and "m (emplid a) = JSUndefined \<or> m (emplid a) = JSNull \<or> m (emplid a) = JSString ''''"
  proof -
    from that(1) obtain run where "a \<in> set (exportedRows payCodeSet m run)"
      by (auto simp: output_runs)
    moreover from that(2) have "unionBlank m (emplid a)" by (simp add: unionBlank_def isBlank_def)
    ultimately show ?thesis by (rule exportedRows_rate)
  qed
  have two: "filterAndAdd payCodeSet (Some m) st Record =
          Inr (st\<lparr> summedRecords := addData Record (summedRecords st),
                    recordCount := recordCount st + 1 \<rparr>)"
    if "accepted payCodeSet Record"
      and "m (DISPLAY_EMPLOYEE Record) \<noteq> JSUndefined" "m (DISPLAY_EMPLOYEE Record) \<noteq> JSNull"
        "m (DISPLAY_EMPLOYEE Record) \<noteq> JSString ''''"
    using that
    by (auto simp: filterAndAdd_cases accepted_def validPrefix_def override_def unionBlank_def
        isBlank_def split: option.splits)
  from one two show ?thesis by blast
qed

section \<open>The claims\<close>









text \<open>
  C4. The adjusting record of a double-rate record goes from \<^verbatim>\<open>addData\<close> straight into
  the sums: for a double-rate record that passes the checks, the table after the
  \<^verbatim>\<open>try\<close> block holds the record and its adjusting record, whatever the pay code set
  says about \<^verbatim>\<open>WORKED_ALLOCATED_REG\<close>; no pay code check, work order check or union
  code lookup is made for the adjusting record. With a pay code set that lacks
  \<^verbatim>\<open>WORKED_ALLOCATED_REG\<close> a row with that pay code is still written.
\<close>

theorem compensating_bypasses_filter:
  assumes "inArray DOUBLE_RATE_PAY_CODES (PAY_CODE Record)"
    and "accepted payCodeSet Record"
  shows "filterAndAdd payCodeSet (Some m) st Record =
           Inr (st\<lparr> summedRecords :=
                       accumulate (adjRecord (override m Record))
                         (accumulate (override m Record) (summedRecords st)),
                     recordCount := recordCount st + 1 \<rparr>)"
  using assms
  by (auto simp: filterAndAdd_cases accepted_def validPrefix_def addData_eq override_fields
      split: option.splits)

theorem compensating_bypasses_filter_witness:
  "inArray DOUBLE_RATE_PAY_CODES
     (PAY_CODE (sampleRecord ''GOLDEN_TIME'' (Some ''M55'') (Finite 8) (Finite 0)))
   \<and> accepted [''GOLDEN_TIME''] (sampleRecord ''GOLDEN_TIME'' (Some ''M55'') (Finite 8) (Finite 0))
   \<and> \<not> inArray [''GOLDEN_TIME''] ''WORKED_ALLOCATED_REG''
   \<and> map_sum id (\<lambda>st. map (payCode \<circ> snd) (summedRecords st))
        (filterAndAdd [''GOLDEN_TIME''] (Some sampleUnionMap) (initState [])
          (sampleRecord ''GOLDEN_TIME'' (Some ''M55'') (Finite 8) (Finite 0))) =
       Inr [''GOLDEN_TIME'', ''WORKED_ALLOCATED_REG'']"
proof -
  let ?R = "sampleRecord ''GOLDEN_TIME'' (Some ''M55'') (Finite 8) (Finite 0)"
  have h1: "inArray DOUBLE_RATE_PAY_CODES (PAY_CODE ?R)"
    by (simp add: inArray_def DOUBLE_RATE_PAY_CODES_def sampleRecord_def)
  have h2: "accepted [''GOLDEN_TIME''] ?R"
    by (simp add: accepted_def validPrefix_def inArray_def VALID_FWO_PREFIXES_def
        toUpperCase_def toUpperChar_def substr_def sampleRecord_def)
  have h3: "\<not> inArray [''GOLDEN_TIME''] ''WORKED_ALLOCATED_REG''"
    by (simp add: inArray_def)
  have t: "map (payCode \<circ> snd) (accumulate (adjRecord (override sampleUnionMap ?R))
             (accumulate (override sampleUnionMap ?R) (summedRecords (initState [])))) =
           [''GOLDEN_TIME'', ''WORKED_ALLOCATED_REG'']"
    by code_simp
  from compensating_bypasses_filter[OF h1 h2, of sampleUnionMap "initState []"] h1 h2 h3 t
  show ?thesis by simp
qed

theorem compensating_bypasses_filter_counterexample:
  "\<not> inArray [''GOLDEN_TIME''] ''WORKED_ALLOCATED_REG'' \<and>
   map payCode (writer (processExportRecords [''GOLDEN_TIME''] (Some sampleUnionMap) []
     [sampleRecord ''GOLDEN_TIME'' (Some ''M55'') (Finite 8) (Finite 0)])) =
     [''GOLDEN_TIME'', ''WORKED_ALLOCATED_REG'']
   \<and> map hours (writer (processExportRecords [''GOLDEN_TIME''] (Some sampleUnionMap) []
     [sampleRecord ''GOLDEN_TIME'' (Some ''M55'') (Finite 8) (Finite 0)])) =
     [Finite 8, Finite (- 8)]"
  by code_simp

text \<open>
  C5. The comment above \<^verbatim>\<open>isUnionCodeNull\<close> promises "true if no union code is
  available for the employee", and line 293 expects \<^verbatim>\<open>unionCodeMap[display_employee]\<close>
  to be "Undefined if no record exists for the employee". The union code map is a plain
  object, and a property read of it also finds what every object inherits. For an
  employee whose id is \<^verbatim>\<open>constructor\<close> and for whom the employee query has no row
  (here it has no row at all, the map is \<^verbatim>\<open>{}\<close>), the read gives the inherited member,
  which is not blank: the rate is not set to zero and the row is written at the rate 40 of
  the record. For the employee \<^verbatim>\<open>E1\<close> the same map gives the rate 0, as it does when
  the union code of \<^verbatim>\<open>E1\<close> is the empty string or null; with the union code
  \<^verbatim>\<open>U\<close> the rate stays 40.
\<close>

theorem union_code_inherited_member:
  "emptyObject ''constructor'' = JSObject
   \<and> isUnionCodeNull (Some emptyObject) ''constructor'' = Inr False
   \<and> map (\<lambda>a. (emplid a, rate a))
       (writer (processExportRecords [''REG''] (Some emptyObject) []
          [(sampleRecord ''REG'' (Some ''M55'') (Finite 8) (Finite 0))
             \<lparr>DISPLAY_EMPLOYEE := ''constructor''\<rparr>])) =
       [(''constructor'', Finite 40)]
   \<and> map (\<lambda>a. (emplid a, rate a))
       (writer (processExportRecords [''REG''] (Some emptyObject) []
          [sampleRecord ''REG'' (Some ''M55'') (Finite 8) (Finite 0)])) =
       [(''E1'', Finite 0)]
   \<and> map (\<lambda>a. (emplid a, rate a))
       (writer (processExportRecords [''REG''] (Some (emptyObject(''E1'' := JSString ''''))) []
          [sampleRecord ''REG'' (Some ''M55'') (Finite 8) (Finite 0)])) =
       [(''E1'', Finite 0)]
   \<and> map (\<lambda>a. (emplid a, rate a))
       (writer (processExportRecords [''REG''] (Some (emptyObject(''E1'' := JSNull))) []
          [sampleRecord ''REG'' (Some ''M55'') (Finite 8) (Finite 0)])) =
       [(''E1'', Finite 0)]
   \<and> map (\<lambda>a. (emplid a, rate a))
       (writer (processExportRecords [''REG''] (Some (emptyObject(''E1'' := JSString ''U''))) []
          [sampleRecord ''REG'' (Some ''M55'') (Finite 8) (Finite 0)])) =
       [(''E1'', Finite 40)]"
  by code_simp




text \<open>
  C7. The records handed to \<^verbatim>\<open>rollbackRecord\<close> are exactly the records of the batch
  whose \<^verbatim>\<open>try\<close> block throws, in batch order; and a record that throws does not stop
  the loop or disturb the sums: the rows written for a batch with such a record in it are
  the rows of the records before it followed by the rows of the records after it.
\<close>

theorem bad_record_skipped:
  "rolledBack (processExportRecords payCodeSet unionCodeMap w batch) =
     filter (raises payCodeSet unionCodeMap) batch
   \<and> (raises payCodeSet unionCodeMap e \<longrightarrow>
        writer (processExportRecords payCodeSet unionCodeMap w (xs @ e # ys)) =
          writer (processExportRecords payCodeSet unionCodeMap
                    (writer (processExportRecords payCodeSet unionCodeMap w xs)) ys))"
proof -
  let ?step = "processRecord payCodeSet unionCodeMap"
  have 1: "rolledBack (processExportRecords payCodeSet unionCodeMap w batch) =
     filter (raises payCodeSet unionCodeMap) batch"
    by (simp add: processExportRecords_def Let_def rolledBack_foldl initState_def)
  have 2: "writer (processExportRecords payCodeSet unionCodeMap w (xs @ e # ys)) =
          writer (processExportRecords payCodeSet unionCodeMap
                    (writer (processExportRecords payCodeSet unionCodeMap w xs)) ys)"
    if re: "raises payCodeSet unionCodeMap e"
  proof -
    let ?S = "foldl ?step (initState w) xs"
    let ?Se = "?step ?S e"
    have inv: "emptyWhenRaising payCodeSet unionCodeMap ?S"
      by (rule emptyWhenRaising_foldl[OF emptyWhenRaising_init])
    have t: "summedRecords ?Se = []"
    proof (cases "groupingChange ?S e")
      case True
      then show ?thesis using re by (simp add: summedRecords_raising)
    next
      case False
      from no_change_key[OF False] inv re have "summedRecords ?S = []"
        by (auto simp: emptyWhenRaising_def)
      then show ?thesis using re False by (simp add: summedRecords_raising)
    qed
    have wr: "writer ?Se = flushed ?S"
    proof (cases "groupingChange ?S e")
      case True
      then show ?thesis by (simp add: writer_processRecord flushed_def)
    next
      case False
      from no_change_key[OF False] inv re have "summedRecords ?S = []"
        by (auto simp: emptyWhenRaising_def)
      with False show ?thesis by (simp add: writer_processRecord flushed_def writeData_def)
    qed
    have "foldl ?step (initState w) (xs @ e # ys) = foldl ?step ?Se ys" by simp
    then have "flushed (foldl ?step (initState w) (xs @ e # ys)) =
        flushed (foldl ?step (initState (writer ?Se)) ys)"
      using empty_table_restart[OF t] by simp
    then show ?thesis by (simp add: writer_processExportRecords wr)
  qed
  from 1 2 show ?thesis by blast
qed

theorem bad_record_skipped_witness:
  "raises [''REG''] (Some sampleUnionMap) (sampleRecord ''REG'' None (Finite 2) (Finite 0))
   \<and> rolledBack (processExportRecords [''REG''] (Some sampleUnionMap) []
       ([sampleRecord ''REG'' (Some ''F7'') (Finite 1) (Finite 0)]
        @ sampleRecord ''REG'' None (Finite 2) (Finite 0)
        # [sampleRecord ''REG'' (Some ''M55'') (Finite 8) (Finite 0)])) =
       [sampleRecord ''REG'' None (Finite 2) (Finite 0)]
   \<and> map hours (writer (processExportRecords [''REG''] (Some sampleUnionMap) []
       ([sampleRecord ''REG'' (Some ''F7'') (Finite 1) (Finite 0)]
        @ sampleRecord ''REG'' None (Finite 2) (Finite 0)
        # [sampleRecord ''REG'' (Some ''M55'') (Finite 8) (Finite 0)]))) = [Finite 1, Finite 8]"
proof -
  let ?a = "sampleRecord ''REG'' (Some ''F7'') (Finite 1) (Finite 0)"
  let ?e = "sampleRecord ''REG'' None (Finite 2) (Finite 0)"
  let ?b = "sampleRecord ''REG'' (Some ''M55'') (Finite 8) (Finite 0)"
  let ?row = "\<lparr>hours = Finite 1, fwo = Some ''F7'', emplid = ''E1'',
        workDt = \<lparr>year = 2024, month = 1, day = 2\<rparr>, payCode = ''REG'', rate = Finite 40,
        jobCode = Some ''JC'', inTransit = Finite 0\<rparr>"
  have r: "raises [''REG''] (Some sampleUnionMap) ?e"
    by (simp add: raises_iff inArray_def sampleRecord_def)
  have f: "filter (raises [''REG''] (Some sampleUnionMap)) ([?a] @ ?e # [?b]) = [?e]"
    by (simp add: raises_iff inArray_def sampleRecord_def)
  have i: "writer (processExportRecords [''REG''] (Some sampleUnionMap) [] [?a]) = [?row]"
    by code_simp
  have w: "map hours (writer (processExportRecords [''REG''] (Some sampleUnionMap) [?row] [?b])) =
      [Finite 1, Finite 8]"
    by code_simp
  note T = bad_record_skipped[of "[''REG'']" "Some sampleUnionMap" "[]" "[?a] @ ?e # [?b]" ?e
      "[?a]" "[?b]"]
  note a = conjunct1[OF T]
  note b = conjunct2[THEN mp, OF T r]
  show ?thesis
    by (intro conjI) (simp_all only: r a f b i w)
qed




text \<open>
  C9. A record whose pay code is in the pay code set, with a work order that is not null,
  is added to the sums exactly when the first character of the work order is M, m, F or
  f; otherwise it is skipped and the state stays as it is. A record with work order
  \<^verbatim>\<open>X123\<close> is skipped, records with \<^verbatim>\<open>M100\<close> and \<^verbatim>\<open>f200\<close> are added.
\<close>

theorem prefix_filter:
  "(inArray payCodeSet (PAY_CODE Record) \<and> LD1 Record = Some ld1 \<longrightarrow>
      filterAndAdd payCodeSet (Some m) st Record =
        (if (case ld1 of [] \<Rightarrow> False
             | c # _ \<Rightarrow> c = CHR ''M'' \<or> c = CHR ''m'' \<or> c = CHR ''F'' \<or> c = CHR ''f'')
         then Inr (st\<lparr> summedRecords := addData (override m Record) (summedRecords st),
                       recordCount := recordCount st + 1 \<rparr>)
         else Inr st))
   \<and> (inArray payCodeSet (PAY_CODE Record) \<longrightarrow>
        filterAndAdd payCodeSet (Some m) st (Record\<lparr>LD1 := Some ''X123''\<rparr>) = Inr st
        \<and> filterAndAdd payCodeSet (Some m) st (Record\<lparr>LD1 := Some ''M100''\<rparr>) =
            Inr (st\<lparr> summedRecords :=
                        addData (override m (Record\<lparr>LD1 := Some ''M100''\<rparr>)) (summedRecords st),
                      recordCount := recordCount st + 1 \<rparr>)
        \<and> filterAndAdd payCodeSet (Some m) st (Record\<lparr>LD1 := Some ''f200''\<rparr>) =
            Inr (st\<lparr> summedRecords :=
                        addData (override m (Record\<lparr>LD1 := Some ''f200''\<rparr>)) (summedRecords st),
                      recordCount := recordCount st + 1 \<rparr>))"
proof (intro conjI impI)
  assume "inArray payCodeSet (PAY_CODE Record) \<and> LD1 Record = Some ld1"
  then show "filterAndAdd payCodeSet (Some m) st Record =
        (if (case ld1 of [] \<Rightarrow> False
             | c # _ \<Rightarrow> c = CHR ''M'' \<or> c = CHR ''m'' \<or> c = CHR ''F'' \<or> c = CHR ''f'')
         then Inr (st\<lparr> summedRecords := addData (override m Record) (summedRecords st),
                       recordCount := recordCount st + 1 \<rparr>)
         else Inr st)"
    using filterAndAdd_prefix[of payCodeSet Record ld1 m st] by blast
next
  assume p: "inArray payCodeSet (PAY_CODE Record)"
  then have "inArray payCodeSet (PAY_CODE (Record\<lparr>LD1 := Some ''X123''\<rparr>))" by simp
  from filterAndAdd_prefix[OF this, of "''X123''" m st]
  show "filterAndAdd payCodeSet (Some m) st (Record\<lparr>LD1 := Some ''X123''\<rparr>) = Inr st"
    by simp
next
  assume p: "inArray payCodeSet (PAY_CODE Record)"
  then have "inArray payCodeSet (PAY_CODE (Record\<lparr>LD1 := Some ''M100''\<rparr>))" by simp
  from filterAndAdd_prefix[OF this, of "''M100''" m st]
  show "filterAndAdd payCodeSet (Some m) st (Record\<lparr>LD1 := Some ''M100''\<rparr>) =
            Inr (st\<lparr> summedRecords :=
                        addData (override m (Record\<lparr>LD1 := Some ''M100''\<rparr>)) (summedRecords st),
                      recordCount := recordCount st + 1 \<rparr>)"
    by simp
next
  assume p: "inArray payCodeSet (PAY_CODE Record)"
  then have "inArray payCodeSet (PAY_CODE (Record\<lparr>LD1 := Some ''f200''\<rparr>))" by simp
  from filterAndAdd_prefix[OF this, of "''f200''" m st]
  show "filterAndAdd payCodeSet (Some m) st (Record\<lparr>LD1 := Some ''f200''\<rparr>) =
            Inr (st\<lparr> summedRecords :=
                        addData (override m (Record\<lparr>LD1 := Some ''f200''\<rparr>)) (summedRecords st),
                      recordCount := recordCount st + 1 \<rparr>)"
    by simp
qed

theorem prefix_filter_witness:
  "inArray [''REG''] (PAY_CODE (sampleRecord ''REG'' (Some ''f200'') (Finite 8) (Finite 0)))
   \<and> LD1 (sampleRecord ''REG'' (Some ''f200'') (Finite 8) (Finite 0)) = Some ''f200''
   \<and> filterAndAdd [''REG''] (Some sampleUnionMap) (initState [])
        (sampleRecord ''REG'' (Some ''f200'') (Finite 8) (Finite 0)) =
       Inr ((initState [])\<lparr> summedRecords :=
               addData (override sampleUnionMap
                          (sampleRecord ''REG'' (Some ''f200'') (Finite 8) (Finite 0))) [],
             recordCount := 1 \<rparr>)
   \<and> filterAndAdd [''REG''] (Some sampleUnionMap) (initState [])
        ((sampleRecord ''REG'' (Some ''f200'') (Finite 8) (Finite 0))\<lparr>LD1 := Some ''X123''\<rparr>) =
       Inr (initState [])"
proof -
  let ?R = "sampleRecord ''REG'' (Some ''f200'') (Finite 8) (Finite 0)"
  have h1: "inArray [''REG''] (PAY_CODE ?R)"
    by (simp add: inArray_def sampleRecord_def)
  have h2: "LD1 ?R = Some ''f200''"
    by (simp add: sampleRecord_def)
  note T = prefix_filter[of "[''REG'']" ?R "''f200''" sampleUnionMap "initState []"]
  from T h1 h2 have a: "filterAndAdd [''REG''] (Some sampleUnionMap) (initState []) ?R =
       Inr ((initState [])\<lparr> summedRecords := addData (override sampleUnionMap ?R) [],
             recordCount := 1 \<rparr>)"
    by (simp add: initState_def)
  from T h1 have b: "filterAndAdd [''REG''] (Some sampleUnionMap) (initState [])
        (?R\<lparr>LD1 := Some ''X123''\<rparr>) = Inr (initState [])"
    by blast
  from h1 h2 a b show ?thesis by blast
qed

text \<open>
  C10. The recursion of \<^verbatim>\<open>addData\<close> ends after at most one nested call. For a record
  with a double-rate pay code \<^verbatim>\<open>addData\<close> sums the record, calls itself once, for the
  adjusting record, and that call only sums its record; for any other record it sums the
  record and makes no call. The log of the nested calls of \<^verbatim>\<open>addData\<close> holds the
  adjusting record alone in the first case and is empty in the second. The adjusting
  record has the pay code \<^verbatim>\<open>WORKED_ALLOCATED_REG\<close>, which is not a double-rate pay
  code. (That \<^verbatim>\<open>addData\<close> returns at all is its termination proof.)
\<close>

theorem addData_nesting_depth:
  "addData record data =
     (if inArray DOUBLE_RATE_PAY_CODES (PAY_CODE record)
      then accumulate (adjRecord record) (accumulate record data)
      else accumulate record data)
   \<and> fst (addData_calls record data) = addData record data
   \<and> snd (addData_calls record data) =
       (if inArray DOUBLE_RATE_PAY_CODES (PAY_CODE record) then [adjRecord record] else [])
   \<and> length (snd (addData_calls record data)) \<le> 1
   \<and> snd (addData_calls (adjRecord record) data) = []
   \<and> PAY_CODE (adjRecord record) = ''WORKED_ALLOCATED_REG''
   \<and> \<not> inArray DOUBLE_RATE_PAY_CODES ''WORKED_ALLOCATED_REG''"
proof -
  have w: "\<not> inArray DOUBLE_RATE_PAY_CODES ''WORKED_ALLOCATED_REG''"
    by (simp add: inArray_def DOUBLE_RATE_PAY_CODES_def)
  have p: "PAY_CODE (adjRecord record) = ''WORKED_ALLOCATED_REG''"
    by (simp add: adjRecord_def)
  have n: "snd (addData_calls (adjRecord record) data) = []"
    by (simp add: addData_calls_eq adjRecord_not_double)
  have c: "snd (addData_calls record data) =
       (if inArray DOUBLE_RATE_PAY_CODES (PAY_CODE record) then [adjRecord record] else [])"
    by (simp add: addData_calls_eq)
  have f: "fst (addData_calls record data) = addData record data"
    by (simp add: addData_calls_eq)
  have l: "length (snd (addData_calls record data)) \<le> 1"
    by (simp add: c)
  from addData_eq[of "record" data] f c l n p w show ?thesis
    by (intro conjI)
qed

end
